theory Spec2Isabelle
  imports Complex_Main "HOL-Library.Word"
begin

unbundle bit_operations_syntax

section \<open>The deterministic daily counter of the landing page\<close>

text \<open>
  The embedding follows \<^verbatim>\<open>src/app/home/page.tsx\<close>. Every number of the source is an
  IEEE double. The numbers of the counter (seed, clock, count, bounds, gaps) hold
  integers, so each is an \<^typ>\<open>int\<close>, and every addition and subtraction of the source
  rounds its exact result to the nearest double (\<open>round53\<close> below). The 32-bit operations
  (\<^verbatim>\<open>^\<close>, \<^verbatim>\<open>|\<close>, \<^verbatim>\<open>>>>\<close>, \<^verbatim>\<open>Math.imul\<close>) first convert their operands modulo
  \<open>2 ^ 32\<close>; they are operations on \<^typ>\<open>32 word\<close>, entered through \<^const>\<open>word_of_int\<close>
  and left through \<^const>\<open>uint\<close> (the \<^verbatim>\<open>>>> 0\<close> of the source).
\<close>

subsection \<open>Double arithmetic on integers\<close>

text \<open>
  A double has a significand of 53 bits. An integer below \<open>2 ^ 53\<close> in magnitude is a
  double; a larger one is rounded to the nearest multiple of \<open>2 ^ e\<close>, where \<open>e\<close> is the
  number of bits it has beyond 53, and a tie goes to the even significand.
  \<open>ulp_shift\<close> is that \<open>e\<close>. The exponent range is left open: the doubles give out only
  at \<open>2 ^ 1024\<close>, and a clock that passes it is past every \<open>T\<close> either way.
\<close>

function ulp_shift :: "int \<Rightarrow> nat" where
  "ulp_shift x = (if x < 9007199254740992 then 0 else Suc (ulp_shift (x div 2)))"
  by pat_completeness auto
termination
  by (relation "measure nat") auto

declare ulp_shift.simps [simp del]

definition round_half_even :: "nat \<Rightarrow> int \<Rightarrow> int" where
  "round_half_even e x =
     (let q = x div 2 ^ e; r = x mod 2 ^ e
      in (if 2 ^ e < 2 * r \<or> (2 * r = 2 ^ e \<and> odd q) then q + 1 else q) * 2 ^ e)"

definition round53 :: "int \<Rightarrow> int" where
  "round53 x = (if x < 0 then - round_half_even (ulp_shift (- x)) (- x)
                else round_half_even (ulp_shift x) x)"

text \<open>The \<^verbatim>\<open>+\<close> and \<^verbatim>\<open>-\<close> of the source on integer-valued doubles.\<close>

definition js_add :: "int \<Rightarrow> int \<Rightarrow> int" where
  "js_add a b = round53 (a + b)"

definition js_sub :: "int \<Rightarrow> int \<Rightarrow> int" where
  "js_sub a b = round53 (a - b)"

text \<open>
  The product \<^verbatim>\<open>rng() * n\<close> of a generator output \<open>r\<close>, a multiple of \<open>2 ^ - 32\<close>, and
  an integer-valued double \<open>n\<close>. The exact product is the integer \<open>r * 2 ^ 32 * n\<close> divided
  by \<open>2 ^ 32\<close>; scaling by a power of two is exact, so the double nearest to it is that
  integer rounded, divided by \<open>2 ^ 32\<close>.
\<close>

definition js_mul_frac :: "rat \<Rightarrow> int \<Rightarrow> rat" where
  "js_mul_frac r n = of_int (round53 \<lfloor>r * 4294967296 * of_int n\<rfloor>) / 4294967296"

text \<open>An integer that is a finite double: what a parameter of type \<^verbatim>\<open>number\<close> can hold.\<close>

definition js_integer :: "int \<Rightarrow> bool" where
  "js_integer x \<longleftrightarrow> round53 x = x \<and> \<bar>x\<bar> < 2 ^ 1024"

type_synonym u32 = "32 word"

text \<open>A JavaScript string is a sequence of UTF-16 code units; \<^verbatim>\<open>charCodeAt\<close> reads one.\<close>

type_synonym js_string = "16 word list"

definition js_of_ascii :: "string \<Rightarrow> js_string" where
  "js_of_ascii s = map of_char s"

subsection \<open>hashStringToSeed\<close>

text \<open>
  \<^verbatim>\<open>
  function hashStringToSeed(str: string) {
    let h = 2166136261;
    for (let i = 0; i < str.length; i++) {
      h ^= str.charCodeAt(i);
      h = Math.imul(h, 16777619);
    }
    return h >>> 0;
  }
  \<close>
  The loop body, then the loop as a recursion over the code units in order.
\<close>

definition hash_step :: "u32 \<Rightarrow> 16 word \<Rightarrow> u32" where
  "hash_step h c = (h XOR ucast c) * 16777619"

fun hash_loop :: "u32 \<Rightarrow> js_string \<Rightarrow> u32" where
  "hash_loop h [] = h"
| "hash_loop h (c # cs) = hash_loop (hash_step h c) cs"

definition hashStringToSeed :: "js_string \<Rightarrow> int" where
  "hashStringToSeed str = uint (hash_loop (word_of_int 2166136261) str)"

subsection \<open>mulberry32\<close>

text \<open>
  \<^verbatim>\<open>
  function mulberry32(seed: number) {
    return function () {
      let t = (seed += 0x6d2b79f5);
      t = Math.imul(t ^ (t >>> 15), t | 1);
      t ^= t + Math.imul(t ^ (t >>> 7), t | 61);
      return ((t ^ (t >>> 14)) >>> 0) / 4294967296;
    };
  }
  \<close>
  The closure's only state is its captured variable \<^verbatim>\<open>seed\<close>, a double that the
  source increments without wrapping to 32 bits. \<open>mulberry32\<close> is one call of the closure
  as a function from that state to the result and the new state; the result is the
  32-bit numerator \<open>mulberry32_bits\<close> divided by \<open>2 ^ 32\<close>.
\<close>

definition mulberry32_mix :: "u32 \<Rightarrow> u32" where
  "mulberry32_mix t0 =
     (let t1 = (t0 XOR drop_bit 15 t0) * (t0 OR 1);
          t2 = t1 XOR (t1 + (t1 XOR drop_bit 7 t1) * (t1 OR 61))
      in t2 XOR drop_bit 14 t2)"

definition mulberry32_bits :: "int \<Rightarrow> int" where
  "mulberry32_bits seed = uint (mulberry32_mix (word_of_int (js_add seed 0x6d2b79f5)))"

definition mulberry32 :: "int \<Rightarrow> rat \<times> int" where
  "mulberry32 seed = (of_int (mulberry32_bits seed) / 4294967296, js_add seed 0x6d2b79f5)"

subsection \<open>countEventsByT\<close>

text \<open>
  \<^verbatim>\<open>
  function countEventsByT(seed: number, T: number, minGap: number, maxGap: number) {
    const rng = mulberry32(seed);
    let t = 0;
    let count = 0;
    while (true) {
      const gap = minGap + Math.floor(rng() * (maxGap - minGap + 1)); // inclusive
      t += gap;
      if (t > T) break;
      count++;
    }
    return count;
  }
  \<close>
  The source checks no bound, and the loop can run forever (with a gap of zero, or once
  the clock is too large for a gap to move it). The loop is therefore a partial
  function: \<open>None\<close> stands for a call that does not return.
\<close>

definition draw_gap :: "rat \<Rightarrow> int \<Rightarrow> int \<Rightarrow> int" where
  "draw_gap r minGap maxGap =
     js_add minGap \<lfloor>js_mul_frac r (js_add (js_sub maxGap minGap) 1)\<rfloor>"

partial_function (option) count_loop :: "int \<Rightarrow> int \<Rightarrow> int \<Rightarrow> int \<Rightarrow> int \<Rightarrow> int \<Rightarrow> int option" where
  "count_loop seed T minGap maxGap t count =
     (case mulberry32 seed of (r, seed') \<Rightarrow>
        let gap = draw_gap r minGap maxGap;
            t' = js_add t gap
        in if t' > T then Some count
           else count_loop seed' T minGap maxGap t' (js_add count 1))"

definition countEventsByT :: "int \<Rightarrow> int \<Rightarrow> int \<Rightarrow> int \<Rightarrow> int option" where
  "countEventsByT seed T minGap maxGap = count_loop seed T minGap maxGap 0 0"

definition MIN_GAP_SECONDS :: int where
  "MIN_GAP_SECONDS = 1"

definition MAX_GAP_SECONDS :: int where
  "MAX_GAP_SECONDS = 60"

text \<open>
  The gap that an iteration draws when the generator's state is \<open>seed\<close>; the loop
  body in terms of it is lemma \<open>count_loop_step\<close> below.
\<close>

definition next_gap :: "int \<Rightarrow> int \<Rightarrow> int \<Rightarrow> int" where
  "next_gap seed minGap maxGap = draw_gap (fst (mulberry32 seed)) minGap maxGap"

text \<open>
  The same loop with a bound on the number of iterations: \<open>None\<close> when the bound is
  used up before the \<^verbatim>\<open>break\<close>. It measures how long the loop runs.
\<close>

fun count_loop_fuel :: "nat \<Rightarrow> int \<Rightarrow> int \<Rightarrow> int \<Rightarrow> int \<Rightarrow> int \<Rightarrow> int \<Rightarrow> int option" where
  "count_loop_fuel 0 seed T minGap maxGap t count = None"
| "count_loop_fuel (Suc n) seed T minGap maxGap t count =
     (case mulberry32 seed of (r, seed') \<Rightarrow>
        let gap = draw_gap r minGap maxGap;
            t' = js_add t gap
        in if t' > T then Some count
           else count_loop_fuel n seed' T minGap maxGap t' (js_add count 1))"

subsection \<open>The closure on a heap\<close>






subsection \<open>The caller\<close>

text \<open>
  \<^verbatim>\<open>
  const update = () => {
    const now = new Date();
    const dateKey = getLocalDateKey(now); // daily reset
    const seed = hashStringToSeed(`beyond-january-daily-counter-${dateKey}`);
    const T = secondsSinceMidnight(now);
    const events = countEventsByT(seed, T, MIN_GAP_SECONDS, MAX_GAP_SECONDS);
    setCount(events); // starts at 0 at midnight
  };
  \<close>
  The clock is outside the model: the date key and the seconds since midnight that the
  two \<^verbatim>\<open>Date\<close> helpers return are the inputs. \<open>computeEventCount\<close> is the pipeline
  from the date key to the count with the two bounds as parameters,
  \<open>computeEventCount_heap\<close> the same pipeline run on a heap, and \<open>update_count\<close> the
  pipeline at the constants the page passes.
\<close>

definition computeEventCount :: "js_string \<Rightarrow> int \<Rightarrow> int \<Rightarrow> int \<Rightarrow> int option" where
  "computeEventCount dateKey T minGap maxGap =
     (let seed = hashStringToSeed (js_of_ascii ''beyond-january-daily-counter-'' @ dateKey)
      in countEventsByT seed T minGap maxGap)"


definition update_count :: "js_string \<Rightarrow> int \<Rightarrow> int option" where
  "update_count dateKey T = computeEventCount dateKey T MIN_GAP_SECONDS MAX_GAP_SECONDS"

subsection \<open>FNV-1a, as the specification words it\<close>

text \<open>
  The reference the hash is compared with, on mathematical integers: the accumulator
  starts at 2166136261; each character code in order is XORed into it, and the
  accumulator is multiplied by the prime 16777619, the product wrapped to 32 bits.
\<close>

definition fnv1a32 :: "int list \<Rightarrow> int" where
  "fnv1a32 codes = foldl (\<lambda>acc c. ((acc XOR c) * 16777619) mod 2 ^ 32) 2166136261 codes"

section \<open>Rounding to a double\<close>

lemma ulp_shift_small: "x < 9007199254740992 \<Longrightarrow> ulp_shift x = 0"
  by (simp add: ulp_shift.simps)

lemma ulp_shift_bounds:
  "0 \<le> x \<Longrightarrow> x div 2 ^ ulp_shift x < 9007199254740992 \<and>
     (0 < ulp_shift x \<longrightarrow> 4503599627370496 \<le> x div 2 ^ ulp_shift x)"
proof (induction x rule: ulp_shift.induct)
  case (1 x)
  show ?case
  proof (cases "x < 9007199254740992")
    case True
    then show ?thesis by (simp add: ulp_shift_small)
  next
    case False
    then have e: "ulp_shift x = Suc (ulp_shift (x div 2))"
      by (subst ulp_shift.simps) simp
    have d: "x div 2 ^ Suc (ulp_shift (x div 2)) = (x div 2) div 2 ^ ulp_shift (x div 2)"
      by (simp add: zdiv_zmult2_eq)
    have IH: "(x div 2) div 2 ^ ulp_shift (x div 2) < 9007199254740992 \<and>
     (0 < ulp_shift (x div 2) \<longrightarrow> 4503599627370496 \<le> (x div 2) div 2 ^ ulp_shift (x div 2))"
      using "1.IH" [OF False] "1.prems" by simp
    show ?thesis
    proof (cases "0 < ulp_shift (x div 2)")
      case True
      with IH show ?thesis unfolding e d by simp
    next
      case z: False
      then have "ulp_shift (x div 2) = 0" by simp
      moreover have "4503599627370496 \<le> x div 2" using False by linarith
      ultimately show ?thesis using IH unfolding e d by simp
    qed
  qed
qed

lemma ulp_shift_mono: "x \<le> y \<Longrightarrow> ulp_shift x \<le> ulp_shift y"
proof (induction x arbitrary: y rule: ulp_shift.induct)
  case (1 x)
  show ?case
  proof (cases "x < 9007199254740992")
    case True
    then show ?thesis by (simp add: ulp_shift_small)
  next
    case False
    then have ex: "ulp_shift x = Suc (ulp_shift (x div 2))"
      by (subst ulp_shift.simps) simp
    from False "1.prems" have "\<not> y < 9007199254740992" by linarith
    then have ey: "ulp_shift y = Suc (ulp_shift (y div 2))"
      by (subst ulp_shift.simps) simp
    have "x div 2 \<le> y div 2" using "1.prems" by (simp add: zdiv_mono1)
    from "1.IH" [OF False this] show ?thesis unfolding ex ey by simp
  qed
qed

lemma round_half_even_0: "round_half_even 0 x = x"
  by (simp add: round_half_even_def)

lemma round_half_even_cases:
  "round_half_even e x = (x div 2 ^ e) * 2 ^ e \<and> 2 * (x mod 2 ^ e) \<le> 2 ^ e \<or>
   round_half_even e x = (x div 2 ^ e + 1) * 2 ^ e \<and> 2 ^ e \<le> 2 * (x mod 2 ^ e)"
  unfolding round_half_even_def Let_def by auto

lemma round_half_even_lower: "(x div 2 ^ e) * 2 ^ e \<le> round_half_even e x"
  using round_half_even_cases [of e x] by (auto simp: algebra_simps)

lemma round_half_even_upper: "round_half_even e x \<le> (x div 2 ^ e + 1) * 2 ^ e"
  using round_half_even_cases [of e x] by (auto simp: algebra_simps)

lemma round_half_even_error: "2 * (round_half_even e x - x) \<le> 2 ^ e"
proof -
  define P :: int where "P = 2 ^ e"
  define q where "q = x div P"
  define r where "r = x mod P"
  have x: "x = q * P + r"
    unfolding q_def r_def by simp
  have r: "0 \<le> r" unfolding r_def P_def by simp
  have P: "0 \<le> P" unfolding P_def by simp
  from round_half_even_cases [of e x]
  have "round_half_even e x = q * P \<and> 2 * r \<le> P \<or>
        round_half_even e x = q * P + P \<and> P \<le> 2 * r"
    unfolding q_def r_def P_def by (simp add: algebra_simps)
  then have "2 * round_half_even e x \<le> 2 * x + P"
    using x r P by auto
  then show ?thesis unfolding P_def by simp
qed

lemma round_half_even_mono:
  assumes "x \<le> y"
  shows "round_half_even e x \<le> round_half_even e y"
proof (cases "x div 2 ^ e = y div 2 ^ e")
  case True
  have "x mod 2 ^ e \<le> y mod 2 ^ e"
    using assms True by (metis add_le_cancel_left mult_div_mod_eq)
  then show ?thesis
    unfolding round_half_even_def Let_def True by auto
next
  case False
  have "x div 2 ^ e \<le> y div 2 ^ e" using assms by (simp add: zdiv_mono1)
  with False have "x div 2 ^ e + 1 \<le> y div 2 ^ e" by linarith
  then have "(x div 2 ^ e + 1) * 2 ^ e \<le> (y div 2 ^ e) * (2 ^ e :: int)"
    by (intro mult_right_mono) simp_all
  then show ?thesis
    using round_half_even_upper [where e = e and x = x] round_half_even_lower [where e = e and x = y] by linarith
qed

lemma round53_nonneg_eq: "0 \<le> x \<Longrightarrow> round53 x = round_half_even (ulp_shift x) x"
  by (simp add: round53_def)

lemma round53_small: "0 \<le> x \<Longrightarrow> x \<le> 9007199254740992 \<Longrightarrow> round53 x = x"
proof (cases "x < 9007199254740992")
  case True
  assume "0 \<le> x"
  with True show ?thesis by (simp add: round53_def ulp_shift_small round_half_even_0)
next
  case False
  assume "0 \<le> x" "x \<le> 9007199254740992"
  with False have x: "x = 9007199254740992" by simp
  have "ulp_shift 9007199254740992 = 1"
    by (subst ulp_shift.simps) (simp add: ulp_shift_small)
  then show ?thesis unfolding x by (simp add: round53_def round_half_even_def)
qed

lemma round53_range:
  assumes "0 \<le> x" "0 < ulp_shift x"
  shows "4503599627370496 * 2 ^ ulp_shift x \<le> round53 x \<and>
         round53 x \<le> 9007199254740992 * 2 ^ ulp_shift x"
proof -
  let ?e = "ulp_shift x"
  from ulp_shift_bounds [OF assms(1)] assms(2)
  have q: "4503599627370496 \<le> x div 2 ^ ?e" "x div 2 ^ ?e + 1 \<le> 9007199254740992" by simp_all
  have "4503599627370496 * 2 ^ ?e \<le> (x div 2 ^ ?e) * (2 ^ ?e :: int)"
    using q(1) by (intro mult_right_mono) simp_all
  moreover have "(x div 2 ^ ?e + 1) * 2 ^ ?e \<le> 9007199254740992 * (2 ^ ?e :: int)"
    using q(2) by (intro mult_right_mono) simp_all
  ultimately show ?thesis
    using round_half_even_lower [where e = "?e" and x = x] round_half_even_upper [where e = "?e" and x = x]
    unfolding round53_nonneg_eq [OF assms(1)] by linarith
qed

lemma round53_mono:
  assumes "0 \<le> x" "x \<le> y"
  shows "round53 x \<le> round53 y"
proof -
  have y: "0 \<le> y" using assms by simp
  have le: "ulp_shift x \<le> ulp_shift y" using assms(2) by (rule ulp_shift_mono)
  show ?thesis
  proof (cases "ulp_shift x = ulp_shift y")
    case True
    then show ?thesis
      unfolding round53_nonneg_eq [OF assms(1)] round53_nonneg_eq [OF y]
      using round_half_even_mono [OF assms(2)] by simp
  next
    case False
    with le have lt: "ulp_shift x < ulp_shift y" by simp
    then have ypos: "0 < ulp_shift y" by simp
    have up: "round53 x \<le> 9007199254740992 * 2 ^ ulp_shift x"
    proof (cases "0 < ulp_shift x")
      case True
      from round53_range [OF assms(1) True] show ?thesis by simp
    next
      case False
      then have z: "ulp_shift x = 0" by simp
      have "x div 2 ^ ulp_shift x < 9007199254740992"
        using ulp_shift_bounds [OF assms(1)] by simp
      then have "x < 9007199254740992" unfolding z by simp
      then show ?thesis
        unfolding round53_nonneg_eq [OF assms(1)] z by (simp add: round_half_even_0)
    qed
    have "Suc (ulp_shift x) \<le> ulp_shift y" using lt by simp
    then have "(2::int) ^ Suc (ulp_shift x) \<le> 2 ^ ulp_shift y"
      by (intro power_increasing) simp_all
    then have "9007199254740992 * 2 ^ ulp_shift x \<le> 4503599627370496 * (2::int) ^ ulp_shift y"
      by simp
    with up round53_range [OF y ypos] show ?thesis by linarith
  qed
qed

lemma round53_nonneg: "0 \<le> x \<Longrightarrow> 0 \<le> round53 x"
  using round53_mono [of 0 x] round53_small [of 0] by simp

lemma round53_ge:
  assumes "0 \<le> y" "y \<le> 9007199254740992" "y \<le> x"
  shows "y \<le> round53 x"
  using round53_mono [OF assms(1,3)] round53_small [OF assms(1,2)] by simp

lemma round53_rel_error:
  assumes "0 \<le> x"
  shows "9007199254740992 * round53 x \<le> 9007199254740993 * x"
proof (cases "0 < ulp_shift x")
  case False
  then have z: "ulp_shift x = 0" by simp
  show ?thesis
    unfolding round53_nonneg_eq [OF assms] z using assms by (simp add: round_half_even_0)
next
  case True
  let ?e = "ulp_shift x"
  from ulp_shift_bounds [OF assms] True
  have q: "4503599627370496 \<le> x div 2 ^ ?e" by simp
  have "4503599627370496 * 2 ^ ?e \<le> (x div 2 ^ ?e) * (2 ^ ?e :: int)"
    using q by (intro mult_right_mono) simp_all
  also have "\<dots> \<le> x"
    by (metis add.commute div_mult_mod_eq le_add_same_cancel2 pos_mod_sign zero_less_numeral zero_less_power)
  finally have a: "4503599627370496 * 2 ^ ?e \<le> x" .
  have b: "2 * (round53 x - x) \<le> 2 ^ ?e"
    unfolding round53_nonneg_eq [OF assms] by (rule round_half_even_error)
  from b have "4503599627370496 * (2 * (round53 x - x)) \<le> 4503599627370496 * 2 ^ ?e"
    by (intro mult_left_mono) simp_all
  from this a have "4503599627370496 * (2 * (round53 x - x)) \<le> x" by (rule order_trans)
  then show ?thesis by (simp add: algebra_simps)
qed

section \<open>The generator and the gaps\<close>

lemma mulberry32_bits_range: "0 \<le> mulberry32_bits seed \<and> mulberry32_bits seed < 4294967296"
  unfolding mulberry32_bits_def
  using uint_lt2p [of "mulberry32_mix (word_of_int (js_add seed 0x6d2b79f5))"]
  by simp

lemma mulberry32_range: "0 \<le> fst (mulberry32 seed) \<and> fst (mulberry32 seed) < 1"
  using mulberry32_bits_range [of seed] by (simp add: mulberry32_def)

lemma draw_gap_int:
  "draw_gap (of_int k / 4294967296) a b =
     js_add a (round53 (k * js_add (js_sub b a) 1) div 4294967296)"
proof -
  have "\<lfloor>(of_int k / 4294967296 :: rat) * 4294967296 * of_int n\<rfloor> = k * n" for n
  proof -
    have "(of_int k / 4294967296 :: rat) * 4294967296 * of_int n = of_int (k * n)" by simp
    then show ?thesis by (simp only: floor_of_int)
  qed
  moreover have "\<lfloor>(of_int m :: rat) / 4294967296\<rfloor> = m div 4294967296" for m
    using floor_divide_of_int_eq [of m 4294967296, where ?'a = rat] by simp
  ultimately show ?thesis
    unfolding draw_gap_def js_mul_frac_def by simp
qed

lemma next_gap_int:
  "next_gap seed a b =
     js_add a (round53 (mulberry32_bits seed * js_add (js_sub b a) 1) div 4294967296)"
  unfolding next_gap_def mulberry32_def fst_conv by (rule draw_gap_int)

lemma gap_factor_ge1:
  assumes "a \<le> b"
  shows "1 \<le> js_add (js_sub b a) 1"
proof -
  have "0 \<le> js_sub b a" unfolding js_sub_def using assms by (intro round53_nonneg) simp
  then show ?thesis unfolding js_add_def by (intro round53_ge) simp_all
qed

lemma gap_offset_nonneg:
  assumes "a \<le> b"
  shows "0 \<le> round53 (mulberry32_bits seed * js_add (js_sub b a) 1) div 4294967296"
proof -
  have "0 \<le> mulberry32_bits seed * js_add (js_sub b a) 1"
    using mulberry32_bits_range [of seed] gap_factor_ge1 [OF assms] by simp
  then have "0 \<le> round53 (mulberry32_bits seed * js_add (js_sub b a) 1)"
    by (rule round53_nonneg)
  then show ?thesis by (simp add: pos_imp_zdiv_nonneg_iff)
qed

lemma next_gap_ge1:
  assumes "1 \<le> a" "a \<le> b"
  shows "1 \<le> next_gap seed a b"
proof -
  define d where "d = round53 (mulberry32_bits seed * js_add (js_sub b a) 1) div 4294967296"
  have "0 \<le> d" unfolding d_def by (rule gap_offset_nonneg [OF assms(2)])
  then have "1 \<le> round53 (a + d)" using assms(1) by (intro round53_ge) simp_all
  then show ?thesis unfolding next_gap_int d_def js_add_def [of a] .
qed

section \<open>The event loop\<close>

text \<open>One iteration of the loop, in terms of the gap it draws.\<close>

lemma count_loop_step:
  "count_loop seed T minGap maxGap t count =
     (if T < js_add t (next_gap seed minGap maxGap) then Some count
      else count_loop (snd (mulberry32 seed)) T minGap maxGap
             (js_add t (next_gap seed minGap maxGap)) (js_add count 1))"
  by (subst count_loop.simps) (simp add: next_gap_def Let_def split: prod.split)

lemma count_loop_fuel_step:
  "count_loop_fuel (Suc n) seed T minGap maxGap t count =
     (if T < js_add t (next_gap seed minGap maxGap) then Some count
      else count_loop_fuel n (snd (mulberry32 seed)) T minGap maxGap
             (js_add t (next_gap seed minGap maxGap)) (js_add count 1))"
  by (simp add: next_gap_def Let_def split: prod.split)

lemma clock_advances:
  assumes "0 \<le> t" "t < 9007199254740992" "1 \<le> g"
  shows "t + 1 \<le> js_add t g"
  unfolding js_add_def using assms by (intro round53_ge) simp_all

lemma count_exact:
  assumes "0 \<le> c" "c < 9007199254740992"
  shows "js_add c 1 = c + 1"
  unfolding js_add_def using assms by (intro round53_small) simp_all

lemma count_loop_fuel_sound:
  "count_loop_fuel n seed T minGap maxGap t count = Some y \<Longrightarrow>
   count_loop seed T minGap maxGap t count = Some y"
proof (induction n arbitrary: seed t count)
  case 0
  then show ?case by simp
next
  case (Suc n)
  let ?t' = "js_add t (next_gap seed minGap maxGap)"
  show ?case
  proof (cases "T < ?t'")
    case True
    with Suc.prems show ?thesis
      by (simp only: count_loop_fuel_step count_loop_step [of seed] if_True)
  next
    case False
    with Suc.prems have "count_loop_fuel n (snd (mulberry32 seed)) T minGap maxGap
        ?t' (js_add count 1) = Some y"
      by (simp only: count_loop_fuel_step if_False)
    then have "count_loop (snd (mulberry32 seed)) T minGap maxGap ?t' (js_add count 1) = Some y"
      by (rule Suc.IH)
    with False show ?thesis
      by (simp only: count_loop_step [of seed] if_False)
  qed
qed

lemma count_loop_fuel_enough:
  assumes "1 \<le> minGap" "minGap \<le> maxGap" "T < 9007199254740992"
  shows "0 \<le> t \<Longrightarrow> t \<le> T \<Longrightarrow> T - t < int n \<Longrightarrow>
         \<exists>y. count_loop_fuel n seed T minGap maxGap t count = Some y"
proof (induction n arbitrary: seed t count)
  case 0
  then show ?case by simp
next
  case (Suc n)
  let ?t' = "js_add t (next_gap seed minGap maxGap)"
  have adv: "t + 1 \<le> ?t'"
    using Suc.prems(1,2) assms(3) next_gap_ge1 [OF assms(1,2), of seed]
    by (intro clock_advances) simp_all
  show ?case
  proof (cases "T < ?t'")
    case True
    then show ?thesis by (simp only: count_loop_fuel_step if_True) blast
  next
    case False
    have "0 \<le> ?t'" "?t' \<le> T" "T - ?t' < int n"
      using adv False Suc.prems by linarith+
    then have "\<exists>y. count_loop_fuel n (snd (mulberry32 seed)) T minGap maxGap
        ?t' (js_add count 1) = Some y"
      by (rule Suc.IH)
    with False show ?thesis by (simp only: count_loop_fuel_step if_False)
  qed
qed

lemma count_loop_total:
  assumes "1 \<le> minGap" "minGap \<le> maxGap" "T < 9007199254740992" "0 \<le> t" "t \<le> T"
  shows "\<exists>y. count_loop seed T minGap maxGap t count = Some y"
proof -
  have "T - t < int (nat (T - t) + 1)" by simp
  from count_loop_fuel_enough [OF assms this]
  obtain y where "count_loop_fuel (nat (T - t) + 1) seed T minGap maxGap t count = Some y"
    by blast
  then show ?thesis using count_loop_fuel_sound by blast
qed

text \<open>The count that the loop returns, from a state with \<open>0 \<le> count \<le> t \<le> T < 2 ^ 53\<close>.\<close>

lemma count_loop_bounds:
  assumes "1 \<le> minGap" "minGap \<le> maxGap" "T < 9007199254740992"
  shows "0 \<le> count \<Longrightarrow> count \<le> t \<Longrightarrow> t \<le> T \<Longrightarrow>
         count_loop seed T minGap maxGap t count = Some y \<Longrightarrow>
         count \<le> y \<and> y \<le> count + (T - t)"
proof (induction "nat (T - t)" arbitrary: seed t count rule: less_induct)
  case less
  let ?t' = "js_add t (next_gap seed minGap maxGap)"
  have t0: "0 \<le> t" using less.prems by simp
  have adv: "t + 1 \<le> ?t'"
    using t0 less.prems(3) assms(3) next_gap_ge1 [OF assms(1,2), of seed]
    by (intro clock_advances) simp_all
  show ?case
  proof (cases "T < ?t'")
    case True
    with less.prems(4) have "y = count"
      by (simp only: count_loop_step [of seed] if_True) simp
    then show ?thesis using less.prems(3) by simp
  next
    case False
    have c: "js_add count 1 = count + 1"
      using less.prems(1,2,3) assms(3) by (intro count_exact) simp_all
    from False less.prems(4)
    have rec: "count_loop (snd (mulberry32 seed)) T minGap maxGap ?t' (count + 1) = Some y"
      by (simp only: count_loop_step [of seed] if_False c)
    have m: "nat (T - ?t') < nat (T - t)" using False adv by linarith
    have "0 \<le> count + 1" "count + 1 \<le> ?t'" "?t' \<le> T"
      using less.prems(1,2) adv False by linarith+
    from less.hyps [OF m this rec] have "count + 1 \<le> y \<and> y \<le> count + 1 + (T - ?t')" .
    then show ?thesis using adv by linarith
  qed
qed

lemma count_loop_mono:
  assumes "1 \<le> minGap" "minGap \<le> maxGap" "T1 \<le> T2" "T2 < 9007199254740992"
  shows "0 \<le> count \<Longrightarrow> count \<le> t \<Longrightarrow> t \<le> T1 \<Longrightarrow>
         count_loop seed T1 minGap maxGap t count = Some y1 \<Longrightarrow>
         count_loop seed T2 minGap maxGap t count = Some y2 \<Longrightarrow> y1 \<le> y2"
proof (induction "nat (T1 - t)" arbitrary: seed t count rule: less_induct)
  case less
  let ?t' = "js_add t (next_gap seed minGap maxGap)"
  have T1: "T1 < 9007199254740992" using assms(3,4) by simp
  have t0: "0 \<le> t" using less.prems by simp
  have adv: "t + 1 \<le> ?t'"
    using t0 less.prems(3) T1 next_gap_ge1 [OF assms(1,2), of seed]
    by (intro clock_advances) simp_all
  show ?case
  proof (cases "T1 < ?t'")
    case True
    with less.prems(4) have "y1 = count"
      by (simp only: count_loop_step [of seed T1] if_True) simp
    moreover have "count \<le> y2"
      using count_loop_bounds [OF assms(1,2,4) less.prems(1,2) _ less.prems(5)]
        less.prems(3) assms(3) by simp
    ultimately show ?thesis by simp
  next
    case False
    then have False2: "\<not> T2 < ?t'" using assms(3) by linarith
    have c: "js_add count 1 = count + 1"
      using less.prems(1,2,3) T1 by (intro count_exact) simp_all
    from False less.prems(4)
    have rec1: "count_loop (snd (mulberry32 seed)) T1 minGap maxGap ?t' (count + 1) = Some y1"
      by (simp only: count_loop_step [of seed T1] if_False c)
    from False2 less.prems(5)
    have rec2: "count_loop (snd (mulberry32 seed)) T2 minGap maxGap ?t' (count + 1) = Some y2"
      by (simp only: count_loop_step [of seed T2] if_False c)
    have m: "nat (T1 - ?t') < nat (T1 - t)" using False adv by linarith
    have "0 \<le> count + 1" "count + 1 \<le> ?t'" "?t' \<le> T1"
      using less.prems(1,2) adv False by linarith+
    from less.hyps [OF m this rec1 rec2] show ?thesis .
  qed
qed

lemma count_loop_succ:
  assumes "1 \<le> minGap" "minGap \<le> maxGap" "T + 1 < 9007199254740992"
  shows "0 \<le> count \<Longrightarrow> count \<le> t \<Longrightarrow> t \<le> T \<Longrightarrow>
         count_loop seed T minGap maxGap t count = Some y1 \<Longrightarrow>
         count_loop seed (T + 1) minGap maxGap t count = Some y2 \<Longrightarrow> y2 \<le> y1 + 1"
proof (induction "nat (T - t)" arbitrary: seed t count rule: less_induct)
  case less
  let ?t' = "js_add t (next_gap seed minGap maxGap)"
  have T: "T < 9007199254740992" using assms(3) by simp
  have t0: "0 \<le> t" using less.prems by simp
  have adv: "t + 1 \<le> ?t'"
    using t0 less.prems(3) T next_gap_ge1 [OF assms(1,2), of seed]
    by (intro clock_advances) simp_all
  have c: "js_add count 1 = count + 1"
    using less.prems(1,2,3) T by (intro count_exact) simp_all
  show ?case
  proof (cases "T < ?t'")
    case True
    with less.prems(4) have y1: "y1 = count"
      by (simp only: count_loop_step [of seed T] if_True) simp
    show ?thesis
    proof (cases "T + 1 < ?t'")
      case True
      with less.prems(5) have "y2 = count"
        by (simp only: count_loop_step [of seed "T + 1"] if_True) simp
      with y1 show ?thesis by simp
    next
      case False
      with less.prems(5)
      have rec: "count_loop (snd (mulberry32 seed)) (T + 1) minGap maxGap ?t' (count + 1) = Some y2"
        by (simp only: count_loop_step [of seed "T + 1"] if_False c)
      have "0 \<le> count + 1" "count + 1 \<le> ?t'" "?t' \<le> T + 1"
        using less.prems(1,2) adv False by linarith+
      from count_loop_bounds [OF assms this rec]
      have "y2 \<le> count + 1 + (T + 1 - ?t')" by simp
      with True y1 show ?thesis by linarith
    qed
  next
    case False
    then have False2: "\<not> T + 1 < ?t'" by linarith
    from False less.prems(4)
    have rec1: "count_loop (snd (mulberry32 seed)) T minGap maxGap ?t' (count + 1) = Some y1"
      by (simp only: count_loop_step [of seed T] if_False c)
    from False2 less.prems(5)
    have rec2: "count_loop (snd (mulberry32 seed)) (T + 1) minGap maxGap ?t' (count + 1) = Some y2"
      by (simp only: count_loop_step [of seed "T + 1"] if_False c)
    have m: "nat (T - ?t') < nat (T - t)" using False adv by linarith
    have "0 \<le> count + 1" "count + 1 \<le> ?t'" "?t' \<le> T"
      using less.prems(1,2) adv False by linarith+
    from less.hyps [OF m this rec1 rec2] show ?thesis .
  qed
qed

section \<open>The range of the gap\<close>

lemma scale_product:
  fixes R x n :: int
  assumes "9007199254740992 * R \<le> 9007199254740993 * x" "x \<le> 4294967295 * n"
  shows "9007199254740992 * R \<le> 38685626218660938630823935 * n"
  using assms by linarith

lemma gap_offset_less:
  assumes "1 \<le> n"
  shows "round53 (mulberry32_bits seed * n) div 4294967296 < n"
proof -
  let ?k = "mulberry32_bits seed"
  have k: "0 \<le> ?k" "?k \<le> 4294967295" using mulberry32_bits_range [of seed] by simp_all
  have x: "0 \<le> ?k * n" using k(1) assms by simp
  have "?k * n \<le> 4294967295 * n" using k(2) assms by (intro mult_right_mono) simp_all
  with round53_rel_error [OF x]
  have "9007199254740992 * round53 (?k * n) \<le> 38685626218660938630823935 * n"
    by (rule scale_product)
  with assms have "round53 (?k * n) < n * 4294967296" by linarith
  then show ?thesis by (simp add: div_less_iff_less_mult)
qed

lemma gap_offset_le:
  assumes "a \<le> b"
  shows "round53 (mulberry32_bits seed * js_add (js_sub b a) 1) div 4294967296 \<le> b - a"
proof (cases "b - a < 9007199254740992")
  case True
  have "js_sub b a = b - a"
    unfolding js_sub_def using assms True by (intro round53_small) simp_all
  moreover have "js_add (b - a) 1 = b - a + 1"
    unfolding js_add_def using assms True by (intro round53_small) simp_all
  ultimately have n: "js_add (js_sub b a) 1 = b - a + 1" by simp
  have "1 \<le> b - a + 1" using assms by simp
  from gap_offset_less [OF this, of seed] show ?thesis unfolding n by simp
next
  case False
  define D where "D = b - a"
  define a' where "a' = round53 D"
  define n where "n = round53 (a' + 1)"
  define p where "p = round53 (mulberry32_bits seed * n)"
  define d where "d = p div 4294967296"
  have D: "9007199254740992 \<le> D" using False unfolding D_def by simp
  then have D0: "0 \<le> D" by simp
  have a0: "0 \<le> a'" unfolding a'_def using D0 by (rule round53_nonneg)
  have n1: "1 \<le> n" unfolding n_def using a0 by (intro round53_ge) simp_all
  let ?k = "mulberry32_bits seed"
  have k: "0 \<le> ?k" "?k \<le> 4294967295" using mulberry32_bits_range [of seed] by simp_all
  have x: "0 \<le> ?k * n" using k(1) n1 by simp
  have p0: "0 \<le> p" unfolding p_def using x by (rule round53_nonneg)
  have i: "9007199254740992 * a' \<le> 9007199254740993 * D"
    unfolding a'_def using D0 by (rule round53_rel_error)
  have "9007199254740992 * n \<le> 9007199254740993 * (a' + 1)"
    unfolding n_def using a0 by (intro round53_rel_error) simp
  then have ii: "9007199254740992 * n \<le> 9007199254740993 * a' + 9007199254740993"
    by (simp add: algebra_simps)
  have "?k * n \<le> 4294967295 * n" using k(2) n1 by (intro mult_right_mono) simp_all
  with round53_rel_error [OF x]
  have iii: "9007199254740992 * p \<le> 38685626218660938630823935 * n"
    unfolding p_def by (rule scale_product)
  have "d * 4294967296 \<le> p"
    unfolding d_def using p0 by (metis add.commute div_mult_mod_eq le_add_same_cancel2 pos_mod_sign zero_less_numeral)
  then have iv: "4294967296 * d \<le> p" by (simp add: mult.commute)
  from i ii iii iv D have "d \<le> D" by linarith
  then show ?thesis
    unfolding d_def p_def n_def a'_def D_def js_add_def js_sub_def .
qed

lemma next_gap_range:
  assumes "1 \<le> a" "a \<le> b" "round53 a = a" "round53 b = b"
  shows "a \<le> next_gap seed a b \<and> next_gap seed a b \<le> b"
proof -
  define d where "d = round53 (mulberry32_bits seed * js_add (js_sub b a) 1) div 4294967296"
  have d0: "0 \<le> d" unfolding d_def by (rule gap_offset_nonneg [OF assms(2)])
  have d1: "d \<le> b - a" unfolding d_def by (rule gap_offset_le [OF assms(2)])
  have g: "next_gap seed a b = round53 (a + d)"
    unfolding next_gap_int d_def js_add_def [of a] ..
  have "round53 a \<le> round53 (a + d)" using assms(1) d0 by (intro round53_mono) simp_all
  moreover have "round53 (a + d) \<le> round53 b" using assms(1) d0 d1 by (intro round53_mono) simp_all
  ultimately show ?thesis unfolding g using assms(3,4) by simp
qed

lemma round53_tie: "round53 9007199254740993 = 9007199254740992"
proof -
  have "ulp_shift 9007199254740993 = 1"
    by (subst ulp_shift.simps) (simp add: ulp_shift_small)
  then show ?thesis by (simp add: round53_def round_half_even_def)
qed

lemma next_gap_one: "next_gap seed 1 1 = 1"
proof -
  let ?k = "mulberry32_bits seed"
  have k: "0 \<le> ?k" "?k < 4294967296" using mulberry32_bits_range [of seed] by simp_all
  have n: "js_add (js_sub 1 1) 1 = 1"
    by (simp add: js_add_def js_sub_def round53_small)
  have "round53 ?k = ?k" using k by (intro round53_small) simp_all
  moreover have "?k div 4294967296 = 0" using k by simp
  ultimately show ?thesis
    unfolding next_gap_int n by (simp add: js_add_def round53_small)
qed

lemma clock_sticks:
  assumes "0 \<le> t" "t \<le> 9007199254740992"
  shows "0 \<le> js_add t 1 \<and> js_add t 1 \<le> 9007199254740992"
proof (cases "t < 9007199254740992")
  case True
  then have "js_add t 1 = t + 1"
    unfolding js_add_def using assms(1) by (intro round53_small) simp_all
  then show ?thesis using assms(1) True by simp
next
  case False
  with assms(2) have "t = 9007199254740992" by simp
  then show ?thesis by (simp add: js_add_def round53_tie)
qed

lemma count_loop_sticks:
  assumes "0 \<le> t" "t \<le> 9007199254740992"
  shows "count_loop seed 9007199254740992 1 1 t count = None"
proof -
  have "\<not> (T = 9007199254740992 \<and> minGap = 1 \<and> maxGap = 1 \<and> 0 \<le> t \<and> t \<le> 9007199254740992)"
    if "count_loop seed T minGap maxGap t count = Some y" for seed T minGap maxGap t count y
  proof (rule count_loop.raw_induct
      [where P = "\<lambda>seed T minGap maxGap t count y.
         \<not> (T = 9007199254740992 \<and> minGap = 1 \<and> maxGap = 1 \<and> 0 \<le> t \<and> t \<le> 9007199254740992)",
       OF _ that])
    fix f :: "int \<Rightarrow> int \<Rightarrow> int \<Rightarrow> int \<Rightarrow> int \<Rightarrow> int \<Rightarrow> int option"
    fix seed T minGap maxGap t count y
    assume IH: "\<And>seed T minGap maxGap t count y.
      f seed T minGap maxGap t count = Some y \<Longrightarrow>
      \<not> (T = 9007199254740992 \<and> minGap = 1 \<and> maxGap = 1 \<and> 0 \<le> t \<and> t \<le> 9007199254740992)"
    assume eq: "(case mulberry32 seed of (r, seed') \<Rightarrow>
      let gap = draw_gap r minGap maxGap; t' = js_add t gap
      in if T < t' then Some count else f seed' T minGap maxGap t' (js_add count 1)) = Some y"
    show "\<not> (T = 9007199254740992 \<and> minGap = 1 \<and> maxGap = 1 \<and> 0 \<le> t \<and> t \<le> 9007199254740992)"
    proof
      assume a: "T = 9007199254740992 \<and> minGap = 1 \<and> maxGap = 1 \<and> 0 \<le> t \<and> t \<le> 9007199254740992"
      have g: "draw_gap (fst (mulberry32 seed)) 1 1 = 1"
        using next_gap_one [of seed] by (simp only: next_gap_def)
      from a have s: "0 \<le> js_add t 1 \<and> js_add t 1 \<le> 9007199254740992"
        by (intro clock_sticks) simp_all
      with eq a g have "f (snd (mulberry32 seed)) 9007199254740992 1 1 (js_add t 1) (js_add count 1) = Some y"
        by (simp add: Let_def split: prod.splits)
      from IH [OF this] s show False by simp
    qed
  qed
  then have ne: "count_loop seed 9007199254740992 1 1 t count \<noteq> Some y" for y
    using assms by blast
  show ?thesis
  proof (cases "count_loop seed 9007199254740992 1 1 t count")
    case None
    then show ?thesis .
  next
    case (Some y)
    with ne [of y] show ?thesis by simp
  qed
qed

section \<open>The loop on a heap\<close>






section \<open>The hash\<close>

lemma uint_ucast_16_32: "uint (ucast (c :: 16 word) :: u32) = uint c"
  by (simp add: uint_up_ucast is_up)

lemma uint_hash_step:
  "uint (hash_step h c) = ((uint h XOR uint c) * 16777619) mod 2 ^ 32"
proof -
  have "uint (hash_step h c) = uint (h XOR ucast c) * uint (16777619 :: u32) mod 2 ^ 32"
    unfolding hash_step_def by (simp add: uint_word_ariths)
  also have "uint (h XOR ucast c) = uint h XOR uint c"
    by (simp only: uint_xor uint_ucast_16_32)
  also have "uint (16777619 :: u32) = 16777619" by simp
  finally show ?thesis .
qed

lemma uint_hash_loop:
  "uint (hash_loop h cs) =
     foldl (\<lambda>acc c. ((acc XOR c) * 16777619) mod 2 ^ 32) (uint h) (map uint cs)"
proof (induction cs arbitrary: h)
  case Nil
  show ?case by simp
next
  case (Cons c cs)
  show ?case by (simp only: hash_loop.simps Cons.IH uint_hash_step list.map foldl_Cons)
qed

lemma hashStringToSeed_range: "0 \<le> hashStringToSeed str \<and> hashStringToSeed str < 4294967296"
  unfolding hashStringToSeed_def
  using uint_lt2p [of "hash_loop (word_of_int 2166136261) str"] by simp

section \<open>Running the loop on concrete input\<close>

lemma count_loop_unfold:
  "count_loop seed T a b t c =
     (let t' = js_add t (js_add a (round53 (mulberry32_bits seed * js_add (js_sub b a) 1)
                           div 4294967296))
      in if T < t' then Some c
         else count_loop (js_add seed 1831565813) T a b t' (js_add c 1))"
  by (subst count_loop_step) (simp add: next_gap_int mulberry32_def Let_def)

lemma count_2026_01_15: "countEventsByT 2559132716 3600 1 60 = Some 121"
  unfolding countEventsByT_def
  by (simp add: count_loop_unfold mulberry32_bits_def mulberry32_mix_def Let_def
      js_add_def js_sub_def round53_small)

lemma seed_2026_01_15:
  "hashStringToSeed (js_of_ascii ''beyond-january-daily-counter-2026-01-15'') = 2559132716"
  by (simp add: hashStringToSeed_def js_of_ascii_def hash_step_def)

lemma count_at_zero:
  assumes "1 \<le> minGap" "minGap \<le> maxGap"
  shows "count_loop seed 0 minGap maxGap 0 0 = Some 0"
proof -
  have "0 + 1 \<le> js_add 0 (next_gap seed minGap maxGap)"
    using next_gap_ge1 [OF assms, of seed] by (intro clock_advances) simp_all
  then show ?thesis by (subst count_loop_step) simp
qed

lemma count_never_returns:
  "countEventsByT seed 9007199254740992 1 1 = None"
  unfolding countEventsByT_def by (rule count_loop_sticks) simp_all

section \<open>The properties of the counter\<close>

text \<open>
  In the statements below \<open>js_integer\<close> says of a parameter that it is a number of the
  source holding an integer; 1 and 60, the bounds of the page, are such numbers, and so
  is every seed that \<open>hashStringToSeed\<close> returns.
\<close>



text \<open>
  C2 (monotonic non-decrease within a day), as amended. For a fixed seed and bounds
  that are numbers, with \<open>1 \<le> minGap \<le> maxGap\<close>, and \<open>0 \<le> T1 < T2 < 2 ^ 53\<close>, both calls return and the
  count at \<open>T1\<close> is at most the count at \<open>T2\<close>.
\<close>

theorem countEventsByT_monotone:
  assumes "1 \<le> minGap" "minGap \<le> maxGap" "0 \<le> T1" "T1 < T2" "T2 < 9007199254740992"
    "js_integer seed" "js_integer minGap" "js_integer maxGap"
  shows "\<exists>c1 c2. countEventsByT seed T1 minGap maxGap = Some c1 \<and>
                 countEventsByT seed T2 minGap maxGap = Some c2 \<and> c1 \<le> c2"
proof -
  have T1: "T1 < 9007199254740992" "T1 \<le> T2" "0 \<le> T2" using assms(3,4,5) by simp_all
  obtain c1 where c1: "count_loop seed T1 minGap maxGap 0 0 = Some c1"
    using count_loop_total [OF assms(1,2) T1(1) _ assms(3)] by auto
  obtain c2 where c2: "count_loop seed T2 minGap maxGap 0 0 = Some c2"
    using count_loop_total [OF assms(1,2,5) _ T1(3)] by auto
  from count_loop_mono [OF assms(1,2) T1(2) assms(5) _ _ assms(3) c1 c2]
  have "c1 \<le> c2" by simp
  with c1 c2 show ?thesis unfolding countEventsByT_def by blast
qed

theorem countEventsByT_monotone_witness:
  "js_integer 2559132716 \<and> js_integer 1 \<and> js_integer 60 \<and>
   (1::int) \<le> 1 \<and> (1::int) \<le> 60 \<and> (0::int) \<le> 3600 \<and> (3600::int) < 7200 \<and>
   (7200::int) < 9007199254740992 \<and>
   (\<exists>c1 c2. countEventsByT 2559132716 3600 1 60 = Some c1 \<and>
            countEventsByT 2559132716 7200 1 60 = Some c2 \<and> c1 \<le> c2)"
  using countEventsByT_monotone [of 1 60 3600 7200 2559132716]
  by (simp add: js_integer_def round53_small)

text \<open>
  C2 as stated ranges over every \<open>T2\<close>. With \<open>minGap = maxGap = 1\<close> every gap is one
  second; at \<open>T2 = 2 ^ 53\<close> the clock reaches \<open>2 ^ 53\<close>, where adding 1 rounds back to
  \<open>2 ^ 53\<close>, so it never passes \<open>T2\<close> and the call does not return: there is no count
  at \<open>T2\<close> for the count at \<open>T1 = 0\<close> to be compared with.
\<close>

theorem countEventsByT_monotone_clock_sticks:
  "countEventsByT 2559132716 0 1 1 = Some 0 \<and>
   countEventsByT 2559132716 9007199254740992 1 1 = None"
  using count_at_zero [of 1 1 2559132716] count_never_returns [of 2559132716]
  by (simp add: countEventsByT_def)

text \<open>
  C3 (midnight reset). For every seed and all bounds of the counter, that is
  \<open>1 \<le> minGap \<le> maxGap\<close>, the count at elapsed seconds 0 is 0: the first gap is at
  least one second, so the first arrival is already past \<open>T = 0\<close>. The seed is the only
  trace of the date, so the value reached on another day plays no part.
\<close>

theorem countEventsByT_midnight:
  assumes "1 \<le> minGap" "minGap \<le> maxGap"
    "js_integer seed" "js_integer minGap" "js_integer maxGap"
  shows "countEventsByT seed 0 minGap maxGap = Some 0"
  unfolding countEventsByT_def using assms(1,2) by (rule count_at_zero)

theorem countEventsByT_midnight_witness:
  "js_integer 2559132716 \<and> js_integer 1 \<and> js_integer 60 \<and>
   (1::int) \<le> 1 \<and> (1::int) \<le> 60 \<and> countEventsByT 2559132716 0 1 60 = Some 0"
  using countEventsByT_midnight [of 1 60 2559132716]
  by (simp add: js_integer_def round53_small)

text \<open>
  C4 (upper bound), as amended. For every seed, every \<open>T\<close> with \<open>0 \<le> T < 2 ^ 53\<close> and
  bounds with \<open>1 \<le> minGap \<le> maxGap\<close>, the call returns a count between 0 and \<open>T\<close>: at
  most one event per elapsed second.
\<close>

theorem countEventsByT_upper_bound:
  assumes "0 \<le> T" "T < 9007199254740992" "1 \<le> minGap" "minGap \<le> maxGap"
    "js_integer seed" "js_integer minGap" "js_integer maxGap"
  shows "\<exists>c. countEventsByT seed T minGap maxGap = Some c \<and> 0 \<le> c \<and> c \<le> T"
proof -
  obtain c where c: "count_loop seed T minGap maxGap 0 0 = Some c"
    using count_loop_total [OF assms(3,4,2) _ assms(1)] by auto
  from count_loop_bounds [OF assms(3,4,2) _ _ assms(1) c] have "0 \<le> c \<and> c \<le> T" by simp
  with c show ?thesis unfolding countEventsByT_def by blast
qed

theorem countEventsByT_upper_bound_witness:
  "js_integer 2559132716 \<and> js_integer 1 \<and> js_integer 60 \<and>
   (0::int) \<le> 3600 \<and> (3600::int) < 9007199254740992 \<and> (1::int) \<le> 1 \<and> (1::int) \<le> 60 \<and>
   (\<exists>c. countEventsByT 2559132716 3600 1 60 = Some c \<and> 0 \<le> c \<and> c \<le> 3600)"
  using countEventsByT_upper_bound [of 3600 1 60 2559132716]
  by (simp add: js_integer_def round53_small)

text \<open>
  C4 as stated ranges over every \<open>T \<ge> 0\<close>. At \<open>T = 2 ^ 53\<close> with \<open>minGap = maxGap = 1\<close>
  the clock sticks at \<open>2 ^ 53\<close> and the call returns no count at all.
\<close>

theorem countEventsByT_upper_bound_clock_sticks:
  "countEventsByT 1 9007199254740992 1 1 = None"
  by (rule count_never_returns)

text \<open>
  C5 (the seed is FNV-1a-32). For every string, \<open>hashStringToSeed\<close> returns the 32-bit
  FNV-1a hash of its character codes as \<open>fnv1a32\<close> words it, and the value is an
  unsigned integer below \<open>2 ^ 32\<close>.
\<close>

theorem hashStringToSeed_is_fnv1a32:
  "hashStringToSeed str = fnv1a32 (map uint str) \<and>
   0 \<le> hashStringToSeed str \<and> hashStringToSeed str < 2 ^ 32"
proof -
  have "uint (word_of_int 2166136261 :: u32) = 2166136261" by simp
  then have "hashStringToSeed str = fnv1a32 (map uint str)"
    unfolding hashStringToSeed_def fnv1a32_def by (simp only: uint_hash_loop)
  then show ?thesis using hashStringToSeed_range [of str] by simp
qed

text \<open>
  C6 (gap range). Every output of the generator lies in \<open>[0, 1)\<close>, and for bounds
  that are numbers with \<open>1 \<le> minGap \<le> maxGap\<close> the gap drawn from it, with every
  rounding of the double arithmetic, lies in \<open>[minGap, maxGap]\<close>, whatever the state of
  the generator, hence at every iteration of the loop.
\<close>

theorem gap_in_range:
  assumes "js_integer minGap" "js_integer maxGap" "1 \<le> minGap" "minGap \<le> maxGap"
    "js_integer seed"
  shows "0 \<le> fst (mulberry32 seed) \<and> fst (mulberry32 seed) < 1 \<and>
         minGap \<le> draw_gap (fst (mulberry32 seed)) minGap maxGap \<and>
         draw_gap (fst (mulberry32 seed)) minGap maxGap \<le> maxGap"
proof -
  have "round53 minGap = minGap" "round53 maxGap = maxGap"
    using assms(1,2) by (simp_all add: js_integer_def)
  from next_gap_range [OF assms(3,4) this, of seed] mulberry32_range [of seed]
  show ?thesis unfolding next_gap_def by simp
qed

theorem gap_in_range_witness:
  "js_integer 1 \<and> js_integer 60 \<and> (1::int) \<le> 1 \<and> (1::int) \<le> 60 \<and>
   js_integer 2559132716 \<and>
   0 \<le> fst (mulberry32 2559132716) \<and> fst (mulberry32 2559132716) < 1 \<and>
   1 \<le> draw_gap (fst (mulberry32 2559132716)) 1 60 \<and>
   draw_gap (fst (mulberry32 2559132716)) 1 60 \<le> 60"
proof -
  have j: "js_integer 1" "js_integer 60" and s: "js_integer 2559132716"
    by (simp_all add: js_integer_def round53_small)
  from gap_in_range [OF j _ _ s] j s show ?thesis by simp
qed

text \<open>
  C7 (termination), as amended. For every seed, every \<open>T\<close> with \<open>0 \<le> T < 2 ^ 53\<close> and
  bounds with \<open>1 \<le> minGap \<le> maxGap\<close>, the loop returns, and it does so within \<open>T + 1\<close>
  iterations: the loop bounded by \<open>T + 1\<close> iterations returns the same count.
\<close>

theorem countEventsByT_terminates:
  assumes "0 \<le> T" "T < 9007199254740992" "1 \<le> minGap" "minGap \<le> maxGap"
    "js_integer seed" "js_integer minGap" "js_integer maxGap"
  shows "\<exists>y. countEventsByT seed T minGap maxGap = Some y \<and>
             count_loop_fuel (nat T + 1) seed T minGap maxGap 0 0 = Some y"
proof -
  have "T - 0 < int (nat T + 1)" using assms(1) by simp
  from count_loop_fuel_enough [OF assms(3,4,2) _ assms(1) this]
  obtain y where y: "count_loop_fuel (nat T + 1) seed T minGap maxGap 0 0 = Some y"
    by auto
  from count_loop_fuel_sound [OF y] have "countEventsByT seed T minGap maxGap = Some y"
    unfolding countEventsByT_def .
  with y show ?thesis by blast
qed

theorem countEventsByT_terminates_witness:
  "js_integer 2559132716 \<and> js_integer 1 \<and> js_integer 60 \<and>
   (0::int) \<le> 3600 \<and> (3600::int) < 9007199254740992 \<and> (1::int) \<le> 1 \<and> (1::int) \<le> 60 \<and>
   (\<exists>y. countEventsByT 2559132716 3600 1 60 = Some y \<and>
        count_loop_fuel (nat 3600 + 1) 2559132716 3600 1 60 0 0 = Some y)"
  using countEventsByT_terminates [of 3600 1 60 2559132716]
  by (simp add: js_integer_def round53_small)

text \<open>
  C7 as stated ranges over every \<open>T \<ge> 0\<close>. The clock is a double: at \<open>2 ^ 53\<close> adding a
  gap of 1 rounds back to \<open>2 ^ 53\<close>. With \<open>minGap = maxGap = 1\<close> and \<open>T = 2 ^ 53\<close> the clock
  therefore never passes \<open>T\<close>, and the loop does not return.
\<close>

theorem countEventsByT_clock_sticks:
  "countEventsByT 0 9007199254740992 1 1 = None"
  by (rule count_never_returns)

text \<open>
  C8 (the concrete example). With the seed hashed from
  \<^verbatim>\<open>beyond-january-daily-counter-2026-01-15\<close>, the count one hour after midnight with
  gaps in \<open>[1, 60]\<close> is 121, which lies between 60 and 3600.
\<close>

theorem example_2026_01_15:
  "\<exists>v. countEventsByT
          (hashStringToSeed (js_of_ascii ''beyond-january-daily-counter-2026-01-15''))
          3600 1 60 = Some v \<and> v = 121 \<and> 60 \<le> v \<and> v \<le> 3600"
  by (simp add: seed_2026_01_15 count_2026_01_15)

text \<open>
  C10 (step bound), as amended. For every seed, every \<open>T \<ge> 0\<close> with \<open>T + 1 < 2 ^ 53\<close>
  and bounds with \<open>1 \<le> minGap \<le> maxGap\<close>, both calls return and the count at \<open>T + 1\<close>
  is at most the count at \<open>T\<close> plus one.
\<close>

theorem countEventsByT_step_bound:
  assumes "0 \<le> T" "T + 1 < 9007199254740992" "1 \<le> minGap" "minGap \<le> maxGap"
    "js_integer seed" "js_integer minGap" "js_integer maxGap"
  shows "\<exists>c1 c2. countEventsByT seed T minGap maxGap = Some c1 \<and>
                 countEventsByT seed (T + 1) minGap maxGap = Some c2 \<and> c2 \<le> c1 + 1"
proof -
  have T: "T < 9007199254740992" "0 \<le> T + 1" using assms(1,2) by simp_all
  obtain c1 where c1: "count_loop seed T minGap maxGap 0 0 = Some c1"
    using count_loop_total [OF assms(3,4) T(1) _ assms(1)] by auto
  obtain c2 where c2: "count_loop seed (T + 1) minGap maxGap 0 0 = Some c2"
    using count_loop_total [OF assms(3,4,2) _ T(2)] by auto
  from count_loop_succ [OF assms(3,4,2) _ _ assms(1) c1 c2] have "c2 \<le> c1 + 1" by simp
  with c1 c2 show ?thesis unfolding countEventsByT_def by blast
qed

theorem countEventsByT_step_bound_witness:
  "js_integer 2559132716 \<and> js_integer 1 \<and> js_integer 60 \<and>
   (0::int) \<le> 3600 \<and> (3600::int) + 1 < 9007199254740992 \<and> (1::int) \<le> 1 \<and> (1::int) \<le> 60 \<and>
   (\<exists>c1 c2. countEventsByT 2559132716 3600 1 60 = Some c1 \<and>
            countEventsByT 2559132716 (3600 + 1) 1 60 = Some c2 \<and> c2 \<le> c1 + 1)"
  using countEventsByT_step_bound [of 3600 1 60 2559132716]
  by (simp add: js_integer_def round53_small)

text \<open>
  C10 as stated ranges over every \<open>T \<ge> 0\<close>. At \<open>T = 2 ^ 53 - 1\<close> with
  \<open>minGap = maxGap = 1\<close> the call at \<open>T + 1 = 2 ^ 53\<close> does not return, the clock
  sticking at \<open>2 ^ 53\<close>: there is no count at \<open>T + 1\<close> to be within one of the count at
  \<open>T\<close>.
\<close>

theorem countEventsByT_step_bound_clock_sticks:
  "countEventsByT 7 (9007199254740991 + 1) 1 1 = None"
  using count_never_returns [of 7] by simp

end
